theory Spec2Isabelle
  imports Complex_Main "HOL-Library.Sublist"
begin

text \<open>
  A model of \<open>BracketMarkupProcessor\<close> of \<open>tts_lib/markup_parser.py\<close>, which turns
  text with bracket markup into a list of \<open>SpeechSegment\<close>s, and proofs of what its
  specification says of it.  The definitions follow the Python source function by
  function: the token pattern and \<open>findall\<close>, \<open>_apply_attributes\<close>,
  \<open>_flush_text_buffer\<close> and the loop and the last lines of \<open>parse_markup\<close>.  An
  exception is a value \<open>Inl e\<close> of the result.
\<close>

section \<open>Strings\<close>

text \<open>
  A Python \<open>str\<close> is modelled as the list of its code points, one \<open>char\<close> each; the
  model covers the code points below 256.  The functions of this section are the
  library calls the parser makes (\<open>str.strip\<close>, \<open>str.lower\<close>, \<open>str.split\<close>,
  \<open>str.join\<close>, \<open>re.sub\<close>), restricted to those code points.
\<close>

definition isspace :: "char \<Rightarrow> bool" where
  \<comment> \<open>\<open>str.isspace\<close> and the regex class \<open>\s\<close> on one code point.\<close>
  "isspace c = ((of_char c :: nat) \<in> {9, 10, 11, 12, 13, 28, 29, 30, 31, 32, 133, 160})"

definition strip :: "string \<Rightarrow> string" where
  "strip s = rev (dropWhile isspace (rev (dropWhile isspace s)))"

definition lower_char :: "char \<Rightarrow> char" where
  "lower_char c =
     (let n = (of_char c :: nat)
      in if (65 \<le> n \<and> n \<le> 90) \<or> (192 \<le> n \<and> n \<le> 222 \<and> n \<noteq> 215)
         then char_of (n + 32) else c)"

definition lower :: "string \<Rightarrow> string" where
  "lower s = map lower_char s"

definition upper_char :: "char \<Rightarrow> char" where
  \<comment> \<open>\<open>char.upper()\<close> as far as membership in the phonetic table can tell: only the
      ASCII letters have an upper-case form among the table's keys.\<close>
  "upper_char c =
     (let n = (of_char c :: nat)
      in if 97 \<le> n \<and> n \<le> 122 then char_of (n - 32) else c)"

fun split :: "char \<Rightarrow> string \<Rightarrow> string list" where
  "split sep [] = [[]]"
| "split sep (c # cs) =
     (if c = sep then [] # split sep cs
      else (case split sep cs of
              [] \<Rightarrow> [[c]]
            | x # xs \<Rightarrow> (c # x) # xs))"

fun join :: "string \<Rightarrow> string list \<Rightarrow> string" where
  "join sep [] = []"
| "join sep [x] = x"
| "join sep (x # y # ys) = x @ sep @ join sep (y # ys)"

function sub_ws :: "string \<Rightarrow> string" where
  "sub_ws [] = []"
| "sub_ws (c # cs) =
     (if isspace c then CHR '' '' # sub_ws (dropWhile isspace cs)
      else c # sub_ws cs)"
  by pat_completeness auto
termination
  by (relation "measure length") (auto simp: length_dropWhile_le less_Suc_eq_le)

definition startswith :: "string \<Rightarrow> string \<Rightarrow> bool" where
  "startswith s p = prefix p s"

definition endswith :: "string \<Rightarrow> string \<Rightarrow> bool" where
  "endswith s p = suffix p s"

definition punctuation :: "string" where
  \<comment> \<open>\<open>string.punctuation\<close>: the 32 ASCII punctuation characters.\<close>
  "punctuation = map char_of ([33..<48] @ [58..<65] @ [91..<97] @ [123..<127])"

section \<open>Tokenizer\<close>

text \<open>
  \<open>token_pattern\<close> is the alternation
  \<^verbatim>\<open>(\[pause:[0-9.]+\]|\[[^\]]+\]|\[/\]|[^[\]]+)\<close>.
  Each alternative is a function giving the text it matches at the start of its
  argument.  In every alternative the repeated class excludes the character that has
  to follow it, so the greedy match is the only one.
\<close>

definition pause_digit :: "char \<Rightarrow> bool" where
  "pause_digit c = (c \<in> set ''0123456789.'')"

definition match_pause :: "string \<Rightarrow> string option" where
  "match_pause s =
     (if startswith s ''[pause:'' then
        (let r = drop 7 s; ds = takeWhile pause_digit r; rest = dropWhile pause_digit r
         in if ds \<noteq> [] \<and> startswith rest '']'' then Some (''[pause:'' @ ds @ '']'') else None)
      else None)"

definition match_tag :: "string \<Rightarrow> string option" where
  "match_tag s =
     (if startswith s ''['' then
        (let r = drop 1 s; body = takeWhile (\<lambda>c. c \<noteq> CHR '']'') r;
             rest = dropWhile (\<lambda>c. c \<noteq> CHR '']'') r
         in if body \<noteq> [] \<and> startswith rest '']'' then Some (''['' @ body @ '']'') else None)
      else None)"

definition match_close :: "string \<Rightarrow> string option" where
  "match_close s = (if startswith s ''[/]'' then Some ''[/]'' else None)"

definition match_text :: "string \<Rightarrow> string option" where
  "match_text s =
     (let run = takeWhile (\<lambda>c. c \<noteq> CHR ''['' \<and> c \<noteq> CHR '']'') s
      in if run \<noteq> [] then Some run else None)"

definition token_pattern :: "string \<Rightarrow> string option" where
  "token_pattern s =
     (case match_pause s of Some m \<Rightarrow> Some m | None \<Rightarrow>
      (case match_tag s of Some m \<Rightarrow> Some m | None \<Rightarrow>
       (case match_close s of Some m \<Rightarrow> Some m | None \<Rightarrow> match_text s)))"

text \<open>
  \<open>findall\<close>: scan from the left; where the pattern matches, take the match and go on
  after it; where it does not, skip one character.
\<close>

function findall :: "string \<Rightarrow> string list" where
  "findall [] = []"
| "findall (c # cs) =
     (case token_pattern (c # cs) of
        Some m \<Rightarrow> m # findall (drop (length m) (c # cs))
      | None \<Rightarrow> findall cs)"
  by pat_completeness auto
termination
  by (relation "measure length")
    (auto simp: token_pattern_def match_pause_def match_tag_def match_close_def
      match_text_def Let_def split: option.splits if_splits)

section \<open>Floats\<close>

text \<open>
  The parser only moves floats around, adds them (\<open>+=\<close> on pauses), multiplies them
  (\<open>*=\<close> on presets), compares them with \<open>0\<close> and with each other, and reads them
  with \<open>float()\<close>.  The float type is therefore a type parameter \<open>'f\<close> of the model:
  \<open>0\<close>, \<open>1\<close>, \<open>+\<close>, \<open>*\<close> and \<open><\<close> are the operations of the syntactic classes
  \<open>zero\<close>, \<open>one\<close>, \<open>plus\<close>, \<open>times\<close> and \<open>ord\<close>, which assume no law at all, and
  \<open>float()\<close> and \<open>==\<close> are the two fields below.  Every theorem holds for any
  interpretation, IEEE doubles with rounding, infinities and NaN among them.
\<close>

record 'f float_ops =
  float_of_str :: "string \<Rightarrow> 'f option"  \<comment> \<open>\<open>float(s)\<close>; \<open>None\<close> is ValueError\<close>
  float_eq :: "'f \<Rightarrow> 'f \<Rightarrow> bool"  \<comment> \<open>\<open>x == y\<close> on floats\<close>

text \<open>
  The value under the key \<open>'spell'\<close> of an attribute dict starts as a bool and becomes a
  number when a preset multiplies it.
\<close>

datatype 'f pyval = PyBool bool | PyFloat 'f

definition as_float :: "'f::{zero,one} pyval \<Rightarrow> 'f" where
  "as_float v = (case v of PyBool b \<Rightarrow> (if b then 1 else 0) | PyFloat x \<Rightarrow> x)"

definition truthy :: "'f::{zero,one} float_ops \<Rightarrow> 'f pyval \<Rightarrow> bool" where
  "truthy F v = (case v of PyBool b \<Rightarrow> b | PyFloat x \<Rightarrow> \<not> float_eq F x 0)"

definition py_eq :: "'f::{zero,one} float_ops \<Rightarrow> 'f pyval \<Rightarrow> 'f pyval \<Rightarrow> bool" where
  "py_eq F a b =
     (case (a, b) of
        (PyBool x, PyBool y) \<Rightarrow> x = y
      | _ \<Rightarrow> float_eq F (as_float a) (as_float b))"

text \<open>
  One interpretation for closed examples: exact arithmetic on rationals, reading plain
  decimal literals (an optional sign, digits, an optional fraction).  The examples use
  small integers and one half, on which the arithmetic of doubles is exact as well.
\<close>

definition is_digit :: "char \<Rightarrow> bool" where
  "is_digit c = (c \<in> set ''0123456789'')"

definition digit_val :: "char \<Rightarrow> rat" where
  "digit_val c =
     (case map_of [(CHR ''1'', 1), (CHR ''2'', 2), (CHR ''3'', 3), (CHR ''4'', 4), (CHR ''5'', 5),
                   (CHR ''6'', 6), (CHR ''7'', 7), (CHR ''8'', 8), (CHR ''9'', 9)] c of
        Some d \<Rightarrow> d
      | None \<Rightarrow> 0)"

definition digits_val :: "string \<Rightarrow> rat" where
  "digits_val ds = foldl (\<lambda>n c. 10 * n + digit_val c) 0 ds"

definition decimal_of_str :: "string \<Rightarrow> rat option" where
  "decimal_of_str s =
     (let t = strip s;
          neg = startswith t ''-'';
          u = (if startswith t ''-'' \<or> startswith t ''+'' then drop 1 t else t);
          ip = takeWhile is_digit u;
          r = dropWhile is_digit u;
          fp = (if startswith r ''.'' then drop 1 r else r);
          v = digits_val ip + digits_val fp / 10 ^ length fp
      in if (ip \<noteq> [] \<or> fp \<noteq> []) \<and> (\<forall>c \<in> set fp. is_digit c)
         then Some (if neg then - v else v) else None)"

definition exact_floats :: "rat float_ops" where
  "exact_floats = \<lparr>float_of_str = decimal_of_str, float_eq = (=)\<rparr>"

section \<open>Data structures\<close>

record 'f SpeechSegment =
  "text" :: string
  pause_before :: 'f
  pause_after :: 'f
  rate :: 'f
  pitch :: 'f
  volume :: 'f
  spell :: bool
  voice :: "string option"
  start_time :: 'f
  end_time :: 'f
  duration :: 'f

definition default_segment :: "string \<Rightarrow> 'f::{zero,one} SpeechSegment" where
  \<comment> \<open>\<open>SpeechSegment(text=t)\<close>: every other field at its default.\<close>
  "default_segment t =
     \<lparr>text = t, pause_before = 0, pause_after = 0, rate = 1, pitch = 1, volume = 1,
      spell = False, voice = None, start_time = 0, end_time = 0, duration = 0\<rparr>"

text \<open>
  The attribute dict of a scope.  Its six keys never change, so it is a record; the
  field \<open>attr_k\<close> is the value under the key \<open>'k'\<close>.
\<close>

record 'f attrs =
  attr_rate :: 'f
  attr_pitch :: 'f
  attr_volume :: 'f
  attr_pause_before :: 'f
  attr_pause_after :: 'f
  attr_spell :: "'f pyval"

datatype error = KeyError string | IndexError

text \<open>
  The processor object.  The preset tables are the two dicts read from the
  configuration file, name to (attribute key to multiplier), as association lists in
  the dicts' order; a name or a key occurs once, as in a dict.
\<close>

record 'f processor =
  emotion_presets :: "(string \<times> (string \<times> 'f) list) list"
  modifier_presets :: "(string \<times> (string \<times> 'f) list) list"
  spell_pause_duration :: 'f

definition default_processor :: "'f::zero processor" where
  \<comment> \<open>The processor built without a configuration file: no presets, spell pause 0.\<close>
  "default_processor =
     \<lparr>emotion_presets = [], modifier_presets = [], spell_pause_duration = 0\<rparr>"

definition get_default_attrs :: "'f::{zero,one} attrs" where
  "get_default_attrs =
     \<lparr>attr_rate = 1, attr_pitch = 1, attr_volume = 1, attr_pause_before = 0,
      attr_pause_after = 0, attr_spell = PyBool False\<rparr>"

definition PHONETIC_SPELLING_MAP :: "(char \<times> string) list" where
  "PHONETIC_SPELLING_MAP =
     [(CHR ''A'', ''AAY''), (CHR ''B'', ''Bee''), (CHR ''C'', ''See''), (CHR ''D'', ''Dee''),
      (CHR ''E'', ''Eee''), (CHR ''F'', ''Eff''), (CHR ''G'', ''Gee''), (CHR ''H'', ''Aitch''),
      (CHR ''I'', ''Eye''), (CHR ''J'', ''Jay''), (CHR ''K'', ''Kay''), (CHR ''L'', ''Ell''),
      (CHR ''M'', ''Em''), (CHR ''N'', ''En''), (CHR ''O'', ''Oh''), (CHR ''P'', ''Pee''),
      (CHR ''Q'', ''Cue''), (CHR ''R'', ''Ar''), (CHR ''S'', ''Ess''), (CHR ''T'', ''Tee''),
      (CHR ''U'', ''You''), (CHR ''V'', ''Vee''), (CHR ''W'', ''Double-you''), (CHR ''X'', ''Ex''),
      (CHR ''Y'', ''Why''), (CHR ''Z'', ''Zee''),
      (CHR ''0'', ''zero''), (CHR ''1'', ''one''), (CHR ''2'', ''two''), (CHR ''3'', ''three''),
      (CHR ''4'', ''four''), (CHR ''5'', ''five''), (CHR ''6'', ''six''), (CHR ''7'', ''seven''),
      (CHR ''8'', ''eight''), (CHR ''9'', ''nine'')]"

section \<open>Attribute resolution\<close>

definition attr_keys :: "string list" where
  "attr_keys = [''rate'', ''pitch'', ''volume'', ''pause_before'', ''pause_after'', ''spell'']"

definition set_item :: "'f attrs \<Rightarrow> string \<Rightarrow> 'f \<Rightarrow> 'f attrs" where
  \<comment> \<open>\<open>attrs[key] = v\<close> for a key of the dict and a float \<open>v\<close>.\<close>
  "set_item attrs key v =
     (if key = ''rate'' then attrs\<lparr>attr_rate := v\<rparr>
      else if key = ''pitch'' then attrs\<lparr>attr_pitch := v\<rparr>
      else if key = ''volume'' then attrs\<lparr>attr_volume := v\<rparr>
      else if key = ''pause_before'' then attrs\<lparr>attr_pause_before := v\<rparr>
      else if key = ''pause_after'' then attrs\<lparr>attr_pause_after := v\<rparr>
      else if key = ''spell'' then attrs\<lparr>attr_spell := PyFloat v\<rparr>
      else attrs)"

definition imul_item :: "'f::{zero,one,times} attrs \<Rightarrow> string \<Rightarrow> 'f \<Rightarrow> error + 'f attrs" where
  \<comment> \<open>\<open>attrs[key] *= value\<close>: KeyError when the dict has no such key.\<close>
  "imul_item attrs key v =
     (if key = ''rate'' then Inr (attrs\<lparr>attr_rate := attr_rate attrs * v\<rparr>)
      else if key = ''pitch'' then Inr (attrs\<lparr>attr_pitch := attr_pitch attrs * v\<rparr>)
      else if key = ''volume'' then Inr (attrs\<lparr>attr_volume := attr_volume attrs * v\<rparr>)
      else if key = ''pause_before'' then
        Inr (attrs\<lparr>attr_pause_before := attr_pause_before attrs * v\<rparr>)
      else if key = ''pause_after'' then
        Inr (attrs\<lparr>attr_pause_after := attr_pause_after attrs * v\<rparr>)
      else if key = ''spell'' then
        Inr (attrs\<lparr>attr_spell := PyFloat (as_float (attr_spell attrs) * v)\<rparr>)
      else Inl (KeyError key))"

text \<open>
  \<^verbatim>\<open>
  def _apply_attributes(self, current_attrs, new_attrs_str):
      attrs = deepcopy(current_attrs)
      for attr in new_attrs_str.split(','):
          attr = attr.strip().lower()
          if ':' in attr:
              key, value = attr.split(':', 1)
              try:
                  if key.strip() == 'spell':
                      attrs['spell'] = (value.strip().lower() == 'true' or value.strip() == '1')
                  elif key.strip() in attrs:
                      attrs[key.strip()] = float(value.strip())
              except ValueError:
                  continue
          elif attr == 'spell':
              attrs['spell'] = True
          elif attr in self.emotion_presets:
              for key, value in self.emotion_presets[attr].items():
                  attrs[key] *= value
          elif attr in self.modifier_presets:
              for key, value in self.modifier_presets[attr].items():
                  attrs[key] *= value
      return attrs
  \<close>
  The resolver works on a pair: the dict, and the keys it has bound to a new object
  since the copy was taken.  \<open>deepcopy\<close> hands floats over as the same objects, and a
  dict comparison asks for identity before it asks for \<open>==\<close>, so the second component
  decides the comparison on a value that is not equal to itself.
\<close>

fun apply_preset ::
  "'f::{zero,one,times} attrs \<times> string list \<Rightarrow> (string \<times> 'f) list
     \<Rightarrow> error + 'f attrs \<times> string list" where
  "apply_preset acc [] = Inr acc"
| "apply_preset (attrs, new) ((key, v) # items) =
     (case imul_item attrs key v of
        Inl e \<Rightarrow> Inl e
      | Inr attrs' \<Rightarrow> apply_preset (attrs', key # new) items)"

definition apply_attr ::
  "'f::{zero,one,times} float_ops \<Rightarrow> 'f processor \<Rightarrow> 'f attrs \<times> string list \<Rightarrow> string
     \<Rightarrow> error + 'f attrs \<times> string list" where
  \<comment> \<open>One round of the loop of \<open>_apply_attributes\<close>.\<close>
  "apply_attr F self acc attr0 =
     (let attrs = fst acc; new = snd acc; attr = lower (strip attr0)
      in if CHR '':'' \<in> set attr then
           (let key = takeWhile (\<lambda>c. c \<noteq> CHR '':'') attr;
                val = drop 1 (dropWhile (\<lambda>c. c \<noteq> CHR '':'') attr)
            in if strip key = ''spell'' then
                 Inr (attrs\<lparr>attr_spell :=
                        PyBool (lower (strip val) = ''true'' \<or> strip val = ''1'')\<rparr>,
                      ''spell'' # new)
               else if strip key \<in> set attr_keys then
                 (case float_of_str F (strip val) of
                    None \<Rightarrow> Inr (attrs, new)
                  | Some v \<Rightarrow> Inr (set_item attrs (strip key) v, strip key # new))
               else Inr (attrs, new))
         else if attr = ''spell'' then Inr (attrs\<lparr>attr_spell := PyBool True\<rparr>, ''spell'' # new)
         else (case map_of (emotion_presets self) attr of
                 Some items \<Rightarrow> apply_preset (attrs, new) items
               | None \<Rightarrow>
                   (case map_of (modifier_presets self) attr of
                      Some items \<Rightarrow> apply_preset (attrs, new) items
                    | None \<Rightarrow> Inr (attrs, new))))"

fun apply_attrs ::
  "'f::{zero,one,times} float_ops \<Rightarrow> 'f processor \<Rightarrow> 'f attrs \<times> string list \<Rightarrow> string list
     \<Rightarrow> error + 'f attrs \<times> string list" where
  "apply_attrs F self acc [] = Inr acc"
| "apply_attrs F self acc (a # as) =
     (case apply_attr F self acc a of
        Inl e \<Rightarrow> Inl e
      | Inr acc' \<Rightarrow> apply_attrs F self acc' as)"

definition apply_attributes ::
  "'f::{zero,one,times} float_ops \<Rightarrow> 'f processor \<Rightarrow> 'f attrs \<Rightarrow> string
     \<Rightarrow> error + 'f attrs \<times> string list" where
  "apply_attributes F self current_attrs new_attrs_str =
     apply_attrs F self (current_attrs, []) (split CHR '','' new_attrs_str)"

definition dict_ne ::
  "'f::{zero,one} float_ops \<Rightarrow> 'f attrs \<Rightarrow> string list \<Rightarrow> 'f attrs \<Rightarrow> bool" where
  \<comment> \<open>\<open>temp_attrs != attribute_stack[-1]\<close>, \<open>new\<close> being the keys of \<open>temp_attrs\<close> bound
      since it was copied from the other dict.\<close>
  "dict_ne F temp new cur =
     (\<not> ((''rate'' \<notin> set new \<or> float_eq F (attr_rate temp) (attr_rate cur))
        \<and> (''pitch'' \<notin> set new \<or> float_eq F (attr_pitch temp) (attr_pitch cur))
        \<and> (''volume'' \<notin> set new \<or> float_eq F (attr_volume temp) (attr_volume cur))
        \<and> (''pause_before'' \<notin> set new
             \<or> float_eq F (attr_pause_before temp) (attr_pause_before cur))
        \<and> (''pause_after'' \<notin> set new
             \<or> float_eq F (attr_pause_after temp) (attr_pause_after cur))
        \<and> (''spell'' \<notin> set new \<or> py_eq F (attr_spell temp) (attr_spell cur))))"

section \<open>The parser\<close>

text \<open>
  The variables of \<open>parse_markup\<close> that its loop and \<open>_flush_text_buffer\<close> change.
  \<open>attribute_stack\<close> has its top, \<open>attribute_stack[-1]\<close>, at the head; \<open>segments\<close> is in
  output order, \<open>segments[-1]\<close> is its last element.
\<close>

record 'f state =
  segments :: "'f SpeechSegment list"
  attribute_stack :: "'f attrs list"
  current_text_buffer :: "string list"
  text_segment_created :: bool

definition new_segment :: "string \<Rightarrow> 'f \<Rightarrow> 'f \<Rightarrow> 'f::{zero,one} attrs \<Rightarrow> 'f SpeechSegment" where
  \<comment> \<open>\<open>SpeechSegment(text=t, pause_before=pb, pause_after=pa, **attrs_for_segment)\<close>,
      the dict holding \<open>rate\<close>, \<open>pitch\<close> and \<open>volume\<close> of the scope.\<close>
  "new_segment t pb pa a =
     (default_segment t)\<lparr>pause_before := pb, pause_after := pa, rate := attr_rate a,
       pitch := attr_pitch a, volume := attr_volume a\<rparr>"

definition spell_char :: "char \<Rightarrow> string" where
  "spell_char c =
     (case map_of PHONETIC_SPELLING_MAP (upper_char c) of Some w \<Rightarrow> w | None \<Rightarrow> [c])"

fun spelled_segments ::
  "'f::{zero,one} processor \<Rightarrow> 'f attrs \<Rightarrow> string list \<Rightarrow> 'f SpeechSegment list" where
  \<comment> \<open>The loop over \<open>enumerate(spelled_out_chars)\<close>: a pause segment follows every entry
      but the last.\<close>
  "spelled_segments self a [] = []"
| "spelled_segments self a [w] = [new_segment w 0 0 a]"
| "spelled_segments self a (w # w' # ws) =
     new_segment w 0 0 a # new_segment [] (spell_pause_duration self) 0 a
       # spelled_segments self a (w' # ws)"

text \<open>
  \<^verbatim>\<open>
  def _flush_text_buffer():
      if current_text_buffer:
          text_content = " ".join(current_text_buffer).strip()
          if text_content:
              if all(c in string.punctuation for c in text_content) and segments \
                      and segments[-1].text != "":
                  segments[-1].text += text_content
              else:
                  text_segment_created = True
                  attrs_for_segment = (rate, pitch and volume of attribute_stack[-1])
                  if attribute_stack[-1].get('spell'):
                      spelled_out_chars = (the phonetic entry, or the character, of each
                                           character of text_content)
                      for i, char_text in enumerate(spelled_out_chars):
                          segments.append(SpeechSegment(text=char_text, pause_before=0.0,
                                                        pause_after=0.0, **attrs_for_segment))
                          if i < len(spelled_out_chars) - 1:
                              segments.append(SpeechSegment(text="",
                                  pause_before=self.spell_pause_duration,
                                  pause_after=0.0, **attrs_for_segment))
                  else:
                      segments.append(SpeechSegment(text=text_content,
                          pause_before=attribute_stack[-1]['pause_before'],
                          pause_after=0.0, **attrs_for_segment))
          current_text_buffer = []
          # Reset pause_before for the next segment, as it's been consumed by this one
          attribute_stack[-1]['pause_before'] = 0.0
  \<close>
\<close>

definition flush_text_buffer ::
  "'f::{zero,one} float_ops \<Rightarrow> 'f processor \<Rightarrow> 'f state \<Rightarrow> error + 'f state" where
  "flush_text_buffer F self st =
     (if current_text_buffer st \<noteq> [] then
        (case attribute_stack st of
           [] \<Rightarrow> Inl IndexError
         | cur # rest \<Rightarrow>
             (let text_content = strip (join '' '' (current_text_buffer st));
                  segs = segments st;
                  st1 =
                    (if text_content \<noteq> [] then
                       (if (\<forall>c \<in> set text_content. c \<in> set punctuation) \<and> segs \<noteq> []
                            \<and> text (last segs) \<noteq> [] then
                          st\<lparr>segments :=
                               butlast segs @ [(last segs)\<lparr>text := text (last segs) @ text_content\<rparr>]\<rparr>
                        else if truthy F (attr_spell cur) then
                          st\<lparr>text_segment_created := True,
                             segments := segs @ spelled_segments self cur (map spell_char text_content)\<rparr>
                        else
                          st\<lparr>text_segment_created := True,
                             segments :=
                               segs @ [new_segment text_content (attr_pause_before cur) 0 cur]\<rparr>)
                     else st)
              in Inr (st1\<lparr>current_text_buffer := [],
                           attribute_stack := cur\<lparr>attr_pause_before := 0\<rparr> # rest\<rparr>)))
      else Inr st)"

text \<open>
  \<^verbatim>\<open>
  for token in tokens:
      if token.startswith('[') and token.endswith(']'):
          if token == '[/]':
              _flush_text_buffer()
              if len(attribute_stack) > 1:
                  attribute_stack.pop()
          elif token.startswith('[pause:'):
              _flush_text_buffer()
              try:
                  duration = float(token[7:-1])
                  if segments:
                      segments[-1].pause_after += duration
                  else:
                      attribute_stack[-1]['pause_before'] += duration
              except ValueError:
                  pass
          else:
              attrs_str = token[1:-1]
              temp_attrs = self._apply_attributes(deepcopy(attribute_stack[-1]), attrs_str)
              if current_text_buffer and temp_attrs != attribute_stack[-1]:
                  _flush_text_buffer()
              attribute_stack.append(temp_attrs)
      else:
          if token.strip():
              current_text_buffer.append(re.sub(r'\s+', ' ', token).strip())
  \<close>
\<close>

definition process_token ::
  "'f::{zero,one,plus,times} float_ops \<Rightarrow> 'f processor \<Rightarrow> 'f state \<Rightarrow> string
     \<Rightarrow> error + 'f state" where
  \<comment> \<open>The body of \<open>for token in tokens\<close>.\<close>
  "process_token F self st token =
     (if startswith token ''['' \<and> endswith token '']'' then
        (if token = ''[/]'' then
           (case flush_text_buffer F self st of
              Inl e \<Rightarrow> Inl e
            | Inr st1 \<Rightarrow>
                Inr (if length (attribute_stack st1) > 1
                     then st1\<lparr>attribute_stack := tl (attribute_stack st1)\<rparr> else st1))
         else if startswith token ''[pause:'' then
           (case flush_text_buffer F self st of
              Inl e \<Rightarrow> Inl e
            | Inr st1 \<Rightarrow>
                (case float_of_str F (drop 7 (butlast token)) of
                   None \<Rightarrow> Inr st1
                 | Some d \<Rightarrow>
                     (if segments st1 \<noteq> [] then
                        Inr (st1\<lparr>segments :=
                                   butlast (segments st1)
                                   @ [(last (segments st1))
                                        \<lparr>pause_after := pause_after (last (segments st1)) + d\<rparr>]\<rparr>)
                      else
                        (case attribute_stack st1 of
                           [] \<Rightarrow> Inl IndexError
                         | cur # rest \<Rightarrow>
                             Inr (st1\<lparr>attribute_stack :=
                                        cur\<lparr>attr_pause_before := attr_pause_before cur + d\<rparr>
                                        # rest\<rparr>)))))
         else
           (case attribute_stack st of
              [] \<Rightarrow> Inl IndexError
            | cur # rest \<Rightarrow>
                (case apply_attributes F self cur (drop 1 (butlast token)) of
                   Inl e \<Rightarrow> Inl e
                 | Inr (temp_attrs, new) \<Rightarrow>
                     (case (if current_text_buffer st \<noteq> [] \<and> dict_ne F temp_attrs new cur
                            then flush_text_buffer F self st else Inr st) of
                        Inl e \<Rightarrow> Inl e
                      | Inr st1 \<Rightarrow>
                          Inr (st1\<lparr>attribute_stack := temp_attrs # attribute_stack st1\<rparr>)))))
      else if strip token \<noteq> [] then
        Inr (st\<lparr>current_text_buffer := current_text_buffer st @ [strip (sub_ws token)]\<rparr>)
      else Inr st)"

fun process_tokens ::
  "'f::{zero,one,plus,times} float_ops \<Rightarrow> 'f processor \<Rightarrow> 'f state \<Rightarrow> string list
     \<Rightarrow> error + 'f state" where
  "process_tokens F self st [] = Inr st"
| "process_tokens F self st (token # tokens) =
     (case process_token F self st token of
        Inl e \<Rightarrow> Inl e
      | Inr st' \<Rightarrow> process_tokens F self st' tokens)"

definition initial_state :: "'f::{zero,one} state" where
  "initial_state =
     \<lparr>segments = [], attribute_stack = [get_default_attrs], current_text_buffer = [],
      text_segment_created = False\<rparr>"

text \<open>
  \<^verbatim>\<open>
  _flush_text_buffer()
  if not text_segment_created and attribute_stack[-1]['pause_before'] > 0:
      segments.append(SpeechSegment(text="", pause_before=attribute_stack[-1]['pause_before']))
  elif not segments and not text_segment_created:
      return [SpeechSegment(text="")]
  return segments
  \<close>
\<close>

definition finish ::
  "'f::{zero,one,ord} float_ops \<Rightarrow> 'f processor \<Rightarrow> 'f state \<Rightarrow> error + 'f SpeechSegment list" where
  \<comment> \<open>What \<open>parse_markup\<close> does after its loop: the last flush and the two final cases.\<close>
  "finish F self st =
     (case flush_text_buffer F self st of
        Inl e \<Rightarrow> Inl e
      | Inr st1 \<Rightarrow>
          (if \<not> text_segment_created st1 then
             (case attribute_stack st1 of
                [] \<Rightarrow> Inl IndexError
              | cur # rest \<Rightarrow>
                  (if 0 < attr_pause_before cur then
                     Inr (segments st1
                          @ [(default_segment [])\<lparr>pause_before := attr_pause_before cur\<rparr>])
                   else if segments st1 = [] then Inr [default_segment []]
                   else Inr (segments st1)))
           else Inr (segments st1)))"

definition parse_tokens ::
  "'f::{zero,one,plus,times,ord} float_ops \<Rightarrow> 'f processor \<Rightarrow> string list
     \<Rightarrow> error + 'f SpeechSegment list" where
  "parse_tokens F self tokens =
     (case process_tokens F self initial_state tokens of
        Inl e \<Rightarrow> Inl e
      | Inr st \<Rightarrow> finish F self st)"

definition parse_markup ::
  "'f::{zero,one,plus,times,ord} float_ops \<Rightarrow> 'f processor \<Rightarrow> string
     \<Rightarrow> error + 'f SpeechSegment list" where
  "parse_markup F self markup_text = parse_tokens F self (findall markup_text)"

section \<open>Predicates of the properties\<close>

text \<open>
  The preset tables of the data model: every key of every preset is a key of the
  attribute dict.
\<close>

definition presets_wf :: "'f processor \<Rightarrow> bool" where
  "presets_wf self =
     (\<forall>p \<in> set (emotion_presets self) \<union> set (modifier_presets self).
        \<forall>kv \<in> set (snd p). fst kv \<in> set attr_keys)"

text \<open>
  What holds of the parser's variables all along a run: the stack is not empty, and
  once a text segment has been created there is a segment.
\<close>

definition state_ok :: "'f state \<Rightarrow> bool" where
  "state_ok st = (attribute_stack st \<noteq> [] \<and> (text_segment_created st \<longrightarrow> segments st \<noteq> []))"

text \<open>
  The test of the parser's loop that sends a token to the tag branches.
\<close>

definition is_tag :: "string \<Rightarrow> bool" where
  "is_tag token = (startswith token ''['' \<and> endswith token '']'')"

text \<open>
  The text runs of a token sequence: the tokens that are not tags and not blank, each
  whitespace-normalized as the loop normalizes it before buffering.
\<close>

definition text_runs :: "string list \<Rightarrow> string list" where
  "text_runs tokens =
     map (\<lambda>t. strip (sub_ws t)) (filter (\<lambda>t. \<not> is_tag t \<and> strip t \<noteq> []) tokens)"






definition trimmed :: "string \<Rightarrow> bool" where
  "trimmed r = (r \<noteq> [] \<and> \<not> isspace (hd r) \<and> \<not> isspace (last r))"



section \<open>Strings: properties\<close>

lemma mem_dropWhile: "c \<in> set xs \<Longrightarrow> \<not> P c \<Longrightarrow> c \<in> set (dropWhile P xs)"
  by (induction xs) auto

lemma dropWhile_all: "(\<forall>x \<in> set (dropWhile P xs). P x) \<longleftrightarrow> (\<forall>x \<in> set xs. P x)"
  by (meson mem_dropWhile set_dropWhileD)

lemma takeWhile_upto:
  "a \<notin> set xs \<Longrightarrow> takeWhile (\<lambda>c. c \<noteq> a) (xs @ a # ys) = xs"
  by (induction xs) auto

lemma dropWhile_upto:
  "a \<notin> set xs \<Longrightarrow> dropWhile (\<lambda>c. c \<noteq> a) (xs @ a # ys) = a # ys"
  by (induction xs) auto

lemma strip_eq_Nil: "strip s = [] \<longleftrightarrow> (\<forall>c \<in> set s. isspace c)"
  by (simp add: strip_def dropWhile_eq_Nil_conv dropWhile_all)

lemma strip_hd_last:
  assumes "strip s \<noteq> []"
  shows "\<not> isspace (hd (strip s))" and "\<not> isspace (last (strip s))"
proof -
  let ?X = "dropWhile isspace s"
  let ?R = "dropWhile isspace (rev ?X)"
  from assms have R: "?R \<noteq> []" by (simp add: strip_def)
  then have X: "?X \<noteq> []" by (cases "?X") auto
  have "\<not> isspace (hd ?R)" using R by (rule hd_dropWhile)
  then show "\<not> isspace (last (strip s))"
    using R by (simp add: strip_def last_rev)
  have hX: "\<not> isspace (hd ?X)" using X by (rule hd_dropWhile)
  obtain ys where ys: "rev ?X = ys @ ?R"
    by (metis takeWhile_dropWhile_id)
  then have "?X = rev ?R @ rev ys" by (metis rev_append rev_rev_ident)
  with R have "hd ?X = hd (rev ?R)" by (metis hd_append2 rev_is_Nil_conv)
  with hX show "\<not> isspace (hd (strip s))" by (simp add: strip_def)
qed

lemma strip_id:
  assumes "s = [] \<or> (\<not> isspace (hd s) \<and> \<not> isspace (last s))"
  shows "strip s = s"
proof (cases "s = []")
  case True
  then show ?thesis by (simp add: strip_def)
next
  case False
  with assms have h: "\<not> isspace (hd s)" "\<not> isspace (last s)" by auto
  from False h(1) have 1: "dropWhile isspace s = s" by (cases s) auto
  from False h(2) have 2: "dropWhile isspace (rev s) = rev s"
    by (cases s rule: rev_cases) auto
  show ?thesis by (simp add: strip_def 1 2)
qed

lemma strip_no_space:
  assumes "\<forall>c \<in> set w. \<not> isspace c"
  shows "strip w = w"
proof (cases w rule: rev_cases)
  case Nil
  then show ?thesis by (simp add: strip_def)
next
  case (snoc ys y)
  have "dropWhile isspace w = w"
    using assms by (cases w) auto
  with snoc assms show ?thesis by (simp add: strip_def)
qed

lemma isspace_space: "isspace CHR '' ''"
  by (simp add: isspace_def)

lemma sub_ws_nonspace:
  "c \<in> set s \<Longrightarrow> \<not> isspace c \<Longrightarrow> c \<in> set (sub_ws s)"
proof (induction s rule: sub_ws.induct)
  case (2 d ds)
  show ?case
  proof (cases "isspace d")
    case True
    with 2 have "c \<in> set ds" by auto
    with 2(4) have "c \<in> set (dropWhile isspace ds)" by (simp add: mem_dropWhile)
    with 2 True show ?thesis by simp
  next
    case False
    with 2 show ?thesis by auto
  qed
qed simp

lemma sub_ws_blank:
  "\<forall>c \<in> set s. isspace c \<Longrightarrow> \<forall>c \<in> set (sub_ws s). isspace c"
proof (induction s rule: sub_ws.induct)
  case 1
  show ?case by simp
next
  case (2 c cs)
  from "2.prems" have c: "isspace c" and cs: "\<forall>c \<in> set cs. isspace c" by simp_all
  from cs have "\<forall>c \<in> set (dropWhile isspace cs). isspace c"
    by (blast dest: set_dropWhileD)
  with "2.IH"(1) c have "\<forall>c \<in> set (sub_ws (dropWhile isspace cs)). isspace c"
    by blast
  with c show ?case by (simp add: isspace_space)
qed

lemma punctuation_code:
  assumes "c \<in> set punctuation"
  shows "(of_char c :: nat) \<in> {33..<48} \<union> {58..<65} \<union> {91..<97} \<union> {123..<127}"
proof -
  from assms have "c \<in> char_of ` (({33..<48} \<union> {58..<65} \<union> {91..<97} \<union> {123..<127}) :: nat set)"
    unfolding punctuation_def by (simp only: set_map set_append set_upt Un_assoc)
  then obtain n :: nat where n: "c = char_of n"
    "n \<in> {33..<48} \<union> {58..<65} \<union> {91..<97} \<union> {123..<127}"
    by blast
  then have "n < 256" by auto
  then have "(of_char (char_of n) :: nat) = n" by simp
  with n show ?thesis by simp
qed





lemma trimmed_join:
  "ys \<noteq> [] \<Longrightarrow> \<forall>r \<in> set ys. trimmed r \<Longrightarrow> trimmed (join '' '' ys)"
proof (induction "'' ''" ys rule: join.induct)
  case (3 x y ys)
  then have "trimmed (join '' '' (y # ys))" by simp
  with 3(3) show ?case by (simp add: trimmed_def)
qed simp_all

lemma trimmed_strip: "trimmed r \<Longrightarrow> strip r = r"
  by (simp add: trimmed_def strip_id)

lemma normalized_trimmed:
  assumes "strip t \<noteq> []"
  shows "trimmed (strip (sub_ws t))"
proof -
  from assms obtain c where "c \<in> set t" "\<not> isspace c" by (auto simp: strip_eq_Nil)
  then have "c \<in> set (sub_ws t)" by (rule sub_ws_nonspace)
  with \<open>\<not> isspace c\<close> have "strip (sub_ws t) \<noteq> []" by (auto simp: strip_eq_Nil)
  then show ?thesis using strip_hd_last [of "sub_ws t"] by (simp add: trimmed_def)
qed

section \<open>Tokenizer: properties\<close>

lemma match_tag_whole:
  assumes "body \<noteq> []" and "CHR '']'' \<notin> set body"
  shows "match_tag (CHR ''['' # body @ CHR '']'' # rest) = Some (CHR ''['' # body @ '']'')"
proof -
  have "takeWhile (\<lambda>c. c \<noteq> CHR '']'') (body @ CHR '']'' # rest) = body"
    using assms(2) by (rule takeWhile_upto)
  moreover have "dropWhile (\<lambda>c. c \<noteq> CHR '']'') (body @ CHR '']'' # rest) = CHR '']'' # rest"
    using assms(2) by (rule dropWhile_upto)
  ultimately show ?thesis
    using assms(1) by (simp add: match_tag_def startswith_def Let_def)
qed

lemma match_pause_fails:
  assumes "\<not> (\<forall>c \<in> set ds. pause_digit c)" and "CHR '']'' \<notin> set ds"
  shows "match_pause (''[pause:'' @ ds @ '']'') = None"
proof -
  from assms(1) obtain x where x: "x \<in> set ds" "\<not> pause_digit x" by blast
  have d: "dropWhile pause_digit (ds @ '']'') = dropWhile pause_digit ds @ '']''"
    using x by simp
  have ne: "dropWhile pause_digit ds \<noteq> []"
    using x by (auto simp: dropWhile_eq_Nil_conv)
  then have "hd (dropWhile pause_digit ds) \<in> set ds"
    by (metis hd_in_set set_dropWhileD)
  with assms(2) have "hd (dropWhile pause_digit ds) \<noteq> CHR '']''" by auto
  with ne have "\<not> startswith (dropWhile pause_digit ds @ '']'') '']''"
    by (cases "dropWhile pause_digit ds") (auto simp: startswith_def)
  with d show ?thesis by (simp add: match_pause_def Let_def)
qed

lemma findall_single_tag:
  assumes "body \<noteq> []" and "CHR '']'' \<notin> set body"
    and "match_pause (CHR ''['' # body @ '']'') = None"
  shows "findall (CHR ''['' # body @ '']'') = [CHR ''['' # body @ '']'']"
  using assms match_tag_whole [OF assms(1,2), of "[]"]
  by (simp add: token_pattern_def)

lemma findall_plain:
  assumes "s \<noteq> []" and "CHR ''['' \<notin> set s" and "CHR '']'' \<notin> set s"
  shows "findall s = [s]"
proof -
  from assms(1) obtain c cs where s: "s = c # cs" by (cases s) auto
  with assms(2) have c: "c \<noteq> CHR ''[''" by auto
  have tw: "takeWhile (\<lambda>c. c \<noteq> CHR ''['' \<and> c \<noteq> CHR '']'') s = s"
    using assms(2,3) by (auto simp: takeWhile_eq_all_conv)
  have "token_pattern s = Some s"
    using c assms(1) tw unfolding s
    by (simp add: token_pattern_def match_pause_def match_tag_def match_close_def
        match_text_def startswith_def)
  then show ?thesis by (simp add: s)
qed

lemma plain_token:
  assumes "CHR ''['' \<notin> set s"
  shows "\<not> startswith s ''[''"
  using assms by (cases s) (auto simp: startswith_def)

lemma text_runs_Cons: "text_runs (t # ts) = text_runs [t] @ text_runs ts"
  by (simp add: text_runs_def)

lemma text_runs_trimmed: "\<forall>r \<in> set (text_runs toks). trimmed r"
  by (auto simp: text_runs_def normalized_trimmed)

lemma text_runs_plain:
  assumes "CHR ''['' \<notin> set s" and "CHR '']'' \<notin> set s"
  shows "join '' '' (text_runs (findall s)) = strip (sub_ws s)"
proof (cases "s = []")
  case True
  then show ?thesis by (simp add: text_runs_def strip_def)
next
  case False
  from findall_plain [OF False assms] have f: "findall s = [s]" .
  have nt: "\<not> is_tag s" using plain_token [OF assms(1)] by (simp add: is_tag_def)
  show ?thesis
  proof (cases "strip s = []")
    case True
    then have "\<forall>c \<in> set s. isspace c" by (simp add: strip_eq_Nil)
    then have "\<forall>c \<in> set (sub_ws s). isspace c" by (rule sub_ws_blank)
    then have "strip (sub_ws s) = []" by (simp add: strip_eq_Nil)
    with True show ?thesis by (simp add: f text_runs_def)
  next
    case False
    with nt show ?thesis by (simp add: f text_runs_def)
  qed
qed

section \<open>Attribute resolution: properties\<close>

lemma apply_attrs_append:
  "apply_attrs F self acc (xs @ ys) =
     (case apply_attrs F self acc xs of
        Inl e \<Rightarrow> Inl e
      | Inr acc' \<Rightarrow> apply_attrs F self acc' ys)"
  by (induction xs arbitrary: acc) (auto split: sum.splits)

text \<open>
  C9.  A bare attribute that names a preset of the modifier table is resolved with the
  emotion table first: when the emotion table has the name too, only the emotion
  preset's multipliers are applied, and the modifier preset is applied only when the
  emotion table does not have the name.
\<close>

theorem emotion_table_shadows_modifier_table:
  assumes "lower (strip a) = name" and "CHR '':'' \<notin> set name" and "name \<noteq> ''spell''"
    and "map_of (modifier_presets self) name = Some m"
  shows "apply_attr F self acc a =
           (case map_of (emotion_presets self) name of
              Some e \<Rightarrow> apply_preset acc e
            | None \<Rightarrow> apply_preset acc m)"
  using assms by (cases acc) (simp add: apply_attr_def Let_def split: option.splits)

text \<open>
  The name \<open>calm\<close> in both tables, with different multipliers: the emotion table's one
  is applied, and swapping the tables changes the result.
\<close>

theorem emotion_table_shadows_modifier_table_witness:
  "apply_attr exact_floats
     \<lparr>emotion_presets = [(''calm'', [(''rate'', 2)])],
      modifier_presets = [(''calm'', [(''rate'', 3)])], spell_pause_duration = 0\<rparr>
     (get_default_attrs, []) '' Calm ''
   = Inr (get_default_attrs\<lparr>attr_rate := 2\<rparr>, [''rate''])
   \<and> apply_attr exact_floats
     \<lparr>emotion_presets = [(''calm'', [(''rate'', 3)])],
      modifier_presets = [(''calm'', [(''rate'', 2)])], spell_pause_duration = 0\<rparr>
     (get_default_attrs, []) '' Calm ''
   = Inr (get_default_attrs\<lparr>attr_rate := 3\<rparr>, [''rate''])"
proof -
  let ?self = "\<lparr>emotion_presets = [(''calm'', [(''rate'', 2::rat)])],
      modifier_presets = [(''calm'', [(''rate'', 3)])], spell_pause_duration = 0\<rparr>"
  have n: "lower (strip '' Calm '') = ''calm''" by code_simp
  have c: "CHR '':'' \<notin> set ''calm''" by simp
  have s: "''calm'' \<noteq> ''spell''" by simp
  have m: "map_of (modifier_presets ?self) ''calm'' = Some [(''rate'', 3)]" by simp
  have "apply_attr exact_floats ?self (get_default_attrs, []) '' Calm ''
      = apply_preset (get_default_attrs, []) [(''rate'', 2)]"
    using emotion_table_shadows_modifier_table
      [OF n c s m, of exact_floats "(get_default_attrs, [])"]
    by simp
  moreover have "apply_preset (get_default_attrs, []) [(''rate'', 2::rat)]
      = Inr (get_default_attrs\<lparr>attr_rate := 2\<rparr>, [''rate''])"
    by (simp add: imul_item_def get_default_attrs_def)
  moreover have "apply_attr exact_floats
     \<lparr>emotion_presets = [(''calm'', [(''rate'', 3)])],
      modifier_presets = [(''calm'', [(''rate'', 2)])], spell_pause_duration = 0\<rparr>
     (get_default_attrs, []) '' Calm ''
   = Inr (get_default_attrs\<lparr>attr_rate := 3\<rparr>, [''rate''])"
    by code_simp
  ultimately show ?thesis by simp
qed

text \<open>
  C4, as the claim states it, fails: the key \<open>pause_before\<close> is a key of the attribute
  dict, so \<open>[pause_before:2]\<close> sets the scope's \<open>pause_before\<close> to 2, and the resolved
  scope differs from the one resolved without the token.
\<close>

theorem key_value_counterexample:
  "apply_attributes exact_floats default_processor get_default_attrs ''pause_before:2''
     = Inr (get_default_attrs\<lparr>attr_pause_before := 2\<rparr>, [''pause_before''])
   \<and> apply_attributes exact_floats default_processor get_default_attrs []
     = Inr (get_default_attrs, [])
   \<and> attr_pause_before (get_default_attrs\<lparr>attr_pause_before := 2 :: rat\<rparr>)
     \<noteq> attr_pause_before (get_default_attrs :: rat attrs)"
  by code_simp

text \<open>
  C4, amended.  For a token \<open>key:value\<close> (trimmed and lower-cased, split at its first
  colon, both parts trimmed): when the key is none of \<open>rate\<close>, \<open>pitch\<close>, \<open>volume\<close>,
  \<open>pause_before\<close>, \<open>pause_after\<close>, \<open>spell\<close>, the token is ignored, and resolving a list
  of tokens gives the same result with the token as without it; when the key is one of
  the five float keys, the value under it is set to the parsed float, and the token is
  ignored when the value does not parse; when the key is \<open>spell\<close>, the flag is set to
  whether the value is \<open>true\<close> or \<open>1\<close>.
\<close>

theorem key_value_resolution:
  assumes "attr = lower (strip a)" and "CHR '':'' \<in> set attr"
    and "key = strip (takeWhile (\<lambda>c. c \<noteq> CHR '':'') attr)"
    and "val = strip (drop 1 (dropWhile (\<lambda>c. c \<noteq> CHR '':'') attr))"
  shows "(key \<notin> set [''rate'', ''pitch'', ''volume'', ''pause_before'', ''pause_after'', ''spell'']
            \<longrightarrow> apply_attrs F self acc (pre @ a # post) = apply_attrs F self acc (pre @ post))
       \<and> (key \<in> set [''rate'', ''pitch'', ''volume'', ''pause_before'', ''pause_after'']
            \<longrightarrow> apply_attr F self (attrs, new) a =
                 (case float_of_str F val of
                    None \<Rightarrow> Inr (attrs, new)
                  | Some v \<Rightarrow> Inr (set_item attrs key v, key # new)))
       \<and> (key = ''spell''
            \<longrightarrow> apply_attr F self (attrs, new) a =
                 Inr (attrs\<lparr>attr_spell := PyBool (lower val = ''true'' \<or> val = ''1'')\<rparr>,
                      ''spell'' # new))"
proof -
  have ignored: "apply_attr F self acc' a = Inr acc'"
    if "key \<notin> set [''rate'', ''pitch'', ''volume'', ''pause_before'', ''pause_after'', ''spell'']"
    for acc'
    using that assms by (simp add: apply_attr_def Let_def attr_keys_def)
  have "apply_attrs F self acc (pre @ a # post) = apply_attrs F self acc (pre @ post)"
    if "key \<notin> set [''rate'', ''pitch'', ''volume'', ''pause_before'', ''pause_after'', ''spell'']"
    using ignored [OF that] by (simp add: apply_attrs_append split: sum.splits)
  moreover have "apply_attr F self (attrs, new) a =
                 (case float_of_str F val of
                    None \<Rightarrow> Inr (attrs, new)
                  | Some v \<Rightarrow> Inr (set_item attrs key v, key # new))"
    if "key \<in> set [''rate'', ''pitch'', ''volume'', ''pause_before'', ''pause_after'']"
    using that assms by (auto simp: apply_attr_def Let_def attr_keys_def split: option.splits)
  moreover have "apply_attr F self (attrs, new) a =
                 Inr (attrs\<lparr>attr_spell := PyBool (lower val = ''true'' \<or> val = ''1'')\<rparr>,
                      ''spell'' # new)"
    if "key = ''spell''"
    using that assms by (simp add: apply_attr_def Let_def)
  ultimately show ?thesis by blast
qed

theorem key_value_resolution_witness:
  "apply_attrs exact_floats default_processor (get_default_attrs, [])
       [''rate:2'', '' Tempo : fast'', ''spell'']
     = apply_attrs exact_floats default_processor (get_default_attrs, []) [''rate:2'', ''spell'']
   \<and> apply_attr exact_floats default_processor (get_default_attrs, []) ''pause_after: 3''
     = Inr (get_default_attrs\<lparr>attr_pause_after := 3\<rparr>, [''pause_after''])
   \<and> apply_attr exact_floats default_processor (get_default_attrs, []) ''rate:fast''
     = Inr (get_default_attrs, [])
   \<and> apply_attr exact_floats default_processor (get_default_attrs, []) ''SPELL:1''
     = Inr (get_default_attrs\<lparr>attr_spell := PyBool True\<rparr>, [''spell''])"
proof -
  let ?c = "\<lambda>c. c \<noteq> CHR '':''"
  have a1: "''tempo : fast'' = lower (strip '' Tempo : fast'')"
    and a2: "CHR '':'' \<in> set ''tempo : fast''"
    and a3: "''tempo'' = strip (takeWhile ?c ''tempo : fast'')"
    and a4: "''fast'' = strip (drop 1 (dropWhile ?c ''tempo : fast''))"
    and a5: "''tempo'' \<notin> set [''rate'', ''pitch'', ''volume'', ''pause_before'', ''pause_after'', ''spell'']"
    by code_simp+
  have b1: "''pause_after: 3'' = lower (strip ''pause_after: 3'')"
    and b2: "CHR '':'' \<in> set ''pause_after: 3''"
    and b3: "''pause_after'' = strip (takeWhile ?c ''pause_after: 3'')"
    and b4: "''3'' = strip (drop 1 (dropWhile ?c ''pause_after: 3''))"
    and b5: "''pause_after'' \<in> set [''rate'', ''pitch'', ''volume'', ''pause_before'', ''pause_after'']"
    and b6: "float_of_str exact_floats ''3'' = Some 3"
    by code_simp+
  have c1: "''rate:fast'' = lower (strip ''rate:fast'')"
    and c2: "CHR '':'' \<in> set ''rate:fast''"
    and c3: "''rate'' = strip (takeWhile ?c ''rate:fast'')"
    and c4: "''fast'' = strip (drop 1 (dropWhile ?c ''rate:fast''))"
    and c5: "''rate'' \<in> set [''rate'', ''pitch'', ''volume'', ''pause_before'', ''pause_after'']"
    and c6: "float_of_str exact_floats ''fast'' = None"
    by code_simp+
  have d1: "''spell:1'' = lower (strip ''SPELL:1'')"
    and d2: "CHR '':'' \<in> set ''spell:1''"
    and d3: "''spell'' = strip (takeWhile ?c ''spell:1'')"
    and d4: "''1'' = strip (drop 1 (dropWhile ?c ''spell:1''))"
    by code_simp+
  have A: "apply_attrs exact_floats default_processor (get_default_attrs, [])
       [''rate:2'', '' Tempo : fast'', ''spell'']
     = apply_attrs exact_floats default_processor (get_default_attrs, []) [''rate:2'', ''spell'']"
    using key_value_resolution [OF a1 a2 a3 a4, where F = exact_floats
        and self = default_processor and acc = "(get_default_attrs, [])"
        and pre = "[''rate:2'']" and post = "[''spell'']"] a5
    by simp
  have B: "apply_attr exact_floats default_processor (get_default_attrs, []) ''pause_after: 3''
     = Inr (get_default_attrs\<lparr>attr_pause_after := 3\<rparr>, [''pause_after''])"
    using key_value_resolution [OF b1 b2 b3 b4, where F = exact_floats
        and self = default_processor and attrs = get_default_attrs and new = "[]"] b5 b6
    by (simp add: set_item_def)
  have C: "apply_attr exact_floats default_processor (get_default_attrs, []) ''rate:fast''
     = Inr (get_default_attrs, [])"
    using key_value_resolution [OF c1 c2 c3 c4, where F = exact_floats
        and self = default_processor and attrs = get_default_attrs and new = "[]"] c5 c6
    by simp
  have D: "apply_attr exact_floats default_processor (get_default_attrs, []) ''SPELL:1''
     = Inr (get_default_attrs\<lparr>attr_spell := PyBool True\<rparr>, [''spell''])"
    using key_value_resolution [OF d1 d2 d3 d4, where F = exact_floats
        and self = default_processor and attrs = get_default_attrs and new = "[]"]
    by simp
  from A B C D show ?thesis by blast
qed

subsection \<open>Resolution without KeyError\<close>

lemma imul_item_ok:
  "key \<in> set attr_keys \<Longrightarrow> \<exists>attrs'. imul_item attrs key v = Inr attrs'"
  by (auto simp: imul_item_def attr_keys_def)

lemma apply_preset_ok:
  "\<forall>kv \<in> set items. fst kv \<in> set attr_keys \<Longrightarrow> \<exists>acc'. apply_preset acc items = Inr acc'"
proof (induction acc items rule: apply_preset.induct)
  case (2 attrs new key v items)
  then obtain attrs' where "imul_item attrs key v = Inr attrs'"
    using imul_item_ok [of key attrs v] by auto
  with 2 show ?case by simp
qed simp

lemma apply_attr_ok:
  assumes "presets_wf self"
  shows "\<exists>acc'. apply_attr F self acc a = Inr acc'"
proof -
  have "\<exists>acc'. apply_preset (fst acc, snd acc) items = Inr acc'"
    if "map_of (emotion_presets self) n = Some items \<or> map_of (modifier_presets self) n = Some items"
    for n items
  proof -
    from that have "(n, items) \<in> set (emotion_presets self) \<union> set (modifier_presets self)"
      by (auto dest: map_of_SomeD)
    with assms have "\<forall>kv \<in> set (snd (n, items)). fst kv \<in> set attr_keys"
      unfolding presets_wf_def by blast
    then have "\<forall>kv \<in> set items. fst kv \<in> set attr_keys" by simp
    then show ?thesis by (rule apply_preset_ok)
  qed
  then show ?thesis
    by (auto simp: apply_attr_def Let_def split: option.splits)
qed

lemma apply_attrs_ok:
  assumes "presets_wf self"
  shows "\<exists>acc'. apply_attrs F self acc as = Inr acc'"
proof (induction as arbitrary: acc)
  case (Cons a as)
  from apply_attr_ok [OF assms, of F acc a] obtain acc' where "apply_attr F self acc a = Inr acc'"
    by blast
  with Cons [of acc'] show ?case by simp
qed simp

subsection \<open>Resolution that leaves the spell flag\<close>






section \<open>The parser: properties\<close>

lemma flush_stack:
  assumes "attribute_stack st = cur # rest"
  shows "\<exists>st1 cur'. flush_text_buffer F self st = Inr st1 \<and> attribute_stack st1 = cur' # rest
           \<and> current_text_buffer st1 = []"
  using assms by (auto simp: flush_text_buffer_def Let_def)

lemma flush_stack_length:
  assumes "flush_text_buffer F self st = Inr st1"
  shows "length (attribute_stack st1) = length (attribute_stack st)"
  using assms by (auto simp: flush_text_buffer_def Let_def split: if_splits list.splits)

lemma flush_empty_buffer:
  "current_text_buffer st = [] \<Longrightarrow> flush_text_buffer F self st = Inr st"
  by (simp add: flush_text_buffer_def)

lemma process_tokens_append:
  "process_tokens F self st (xs @ ys) =
     (case process_tokens F self st xs of
        Inl e \<Rightarrow> Inl e
      | Inr st' \<Rightarrow> process_tokens F self st' ys)"
  by (induction xs arbitrary: st) (auto split: sum.splits)

lemma process_token_text:
  assumes "\<not> is_tag t"
  shows "process_token F self st t =
           (if strip t \<noteq> []
            then Inr (st\<lparr>current_text_buffer := current_text_buffer st @ [strip (sub_ws t)]\<rparr>)
            else Inr st)"
proof -
  from assms have "(startswith t ''['' \<and> endswith t '']'') = False"
    by (simp add: is_tag_def)
  then show ?thesis by (simp only: process_token_def if_False)
qed

lemma process_tokens_text_only:
  "\<forall>t \<in> set toks. \<not> is_tag t \<Longrightarrow>
     process_tokens F self st toks
       = Inr (st\<lparr>current_text_buffer := current_text_buffer st @ text_runs toks\<rparr>)"
proof (induction toks arbitrary: st)
  case Nil
  show ?case by (simp add: text_runs_def)
next
  case (Cons t ts)
  then have t: "\<not> is_tag t" and ts: "\<forall>t \<in> set ts. \<not> is_tag t" by simp_all
  show ?case
    using Cons.IH [OF ts] t
    by (simp add: process_token_text text_runs_Cons [of t ts]) (simp add: text_runs_def)
qed

lemma pause_token_shape:
  assumes "startswith token ''[pause:''"
  shows "startswith token ''[''" and "token \<noteq> ''[/]''"
  using assms by (auto simp: startswith_def prefix_def)

lemma process_pause_token:
  assumes "startswith token ''[pause:''" and "endswith token '']''"
    and "flush_text_buffer F self st = Inr st1" and "attribute_stack st1 = cur # rest"
  shows "process_token F self st token =
             Inr (case float_of_str F (drop 7 (butlast token)) of
                    None \<Rightarrow> st1
                  | Some d \<Rightarrow>
                      if segments st1 \<noteq> []
                      then st1\<lparr>segments := butlast (segments st1)
                              @ [(last (segments st1))
                                   \<lparr>pause_after := pause_after (last (segments st1)) + d\<rparr>]\<rparr>
                      else st1\<lparr>attribute_stack :=
                              cur\<lparr>attr_pause_before := attr_pause_before cur + d\<rparr> # rest\<rparr>)"
  using assms pause_token_shape [OF assms(1)]
  by (simp add: process_token_def split: option.splits)

subsection \<open>Pause tags\<close>

text \<open>
  C1, as the claim states it, fails on the scope that takes the duration when there is
  no segment yet: it is the top of the stack, not the root.  After \<open>[x][pause:1]\<close> the
  stack holds the scope pushed by \<open>[x]\<close> with \<open>pause_before = 1\<close> above the root scope
  with \<open>pause_before = 0\<close>.
\<close>

theorem pause_tag_counterexample:
  "process_tokens exact_floats default_processor initial_state (findall ''[x][pause:1]'')
     = Inr \<lparr>segments = [],
             attribute_stack = [get_default_attrs\<lparr>attr_pause_before := 1\<rparr>, get_default_attrs],
             current_text_buffer = [], text_segment_created = False\<rparr>"
  by code_simp

text \<open>
  C1, amended.  A token that starts with \<open>[pause:\<close> and ends with \<open>]\<close> first flushes
  the text buffer, which succeeds; then, when the text between \<open>[pause:\<close> and \<open>]\<close> does
  not parse as a float, the state is the flushed state; when it parses as \<open>d\<close> and there
  is a segment, \<open>d\<close> is added to the last segment's \<open>pause_after\<close>; when it parses and
  there is no segment, \<open>d\<close> is added to the \<open>pause_before\<close> of the scope on top of the
  stack.
\<close>

theorem pause_tag_step:
  assumes "startswith token ''[pause:''" and "endswith token '']''"
    and "attribute_stack st \<noteq> []"
  shows "\<exists>st1 cur rest.
           flush_text_buffer F self st = Inr st1 \<and> attribute_stack st1 = cur # rest
         \<and> process_token F self st token =
             Inr (case float_of_str F (drop 7 (butlast token)) of
                    None \<Rightarrow> st1
                  | Some d \<Rightarrow>
                      if segments st1 \<noteq> []
                      then st1\<lparr>segments := butlast (segments st1)
                              @ [(last (segments st1))
                                   \<lparr>pause_after := pause_after (last (segments st1)) + d\<rparr>]\<rparr>
                      else st1\<lparr>attribute_stack :=
                              cur\<lparr>attr_pause_before := attr_pause_before cur + d\<rparr> # rest\<rparr>)"
proof -
  from assms(3) obtain c r where "attribute_stack st = c # r"
    by (cases "attribute_stack st") auto
  from flush_stack [OF this, of F self] obtain st1 cur where
    f: "flush_text_buffer F self st = Inr st1" and s: "attribute_stack st1 = cur # r"
    by blast
  have "process_token F self st token =
             Inr (case float_of_str F (drop 7 (butlast token)) of
                    None \<Rightarrow> st1
                  | Some d \<Rightarrow>
                      if segments st1 \<noteq> []
                      then st1\<lparr>segments := butlast (segments st1)
                              @ [(last (segments st1))
                                   \<lparr>pause_after := pause_after (last (segments st1)) + d\<rparr>]\<rparr>
                      else st1\<lparr>attribute_stack :=
                              cur\<lparr>attr_pause_before := attr_pause_before cur + d\<rparr> # r\<rparr>)"
    using assms(1,2) pause_token_shape [OF assms(1)] f s
    by (simp add: process_token_def split: option.splits)
  with f s show ?thesis by blast
qed

text \<open>
  With \<open>a\<close> in the buffer, \<open>[pause:1]\<close> flushes it into a segment and adds 1 to its
  \<open>pause_after\<close>; a second tag \<open>[pause:2]\<close> adds 2 more; \<open>[pause:x]\<close> changes nothing.
\<close>

theorem pause_tag_step_witness:
  "process_token exact_floats default_processor
       (initial_state\<lparr>current_text_buffer := [''a'']\<rparr>) ''[pause:1]''
     = Inr \<lparr>segments = [(default_segment ''a'')\<lparr>pause_after := 1\<rparr>],
             attribute_stack = [get_default_attrs], current_text_buffer = [],
             text_segment_created = True\<rparr>
   \<and> process_token exact_floats default_processor initial_state ''[pause:x]'' = Inr initial_state
   \<and> process_tokens exact_floats default_processor initial_state
       [''a'', ''[pause:1]'', ''[pause:2]'']
     = Inr \<lparr>segments = [(default_segment ''a'')\<lparr>pause_after := 3\<rparr>],
             attribute_stack = [get_default_attrs], current_text_buffer = [],
             text_segment_created = True\<rparr>"
proof -
  let ?st = "initial_state :: rat state"
  let ?sa = "?st\<lparr>current_text_buffer := [''a'']\<rparr>"
  let ?s1 = "\<lparr>segments = [default_segment ''a''], attribute_stack = [get_default_attrs],
      current_text_buffer = [], text_segment_created = True\<rparr> :: rat state"
  have x1: "startswith ''[pause:x]'' ''[pause:''" and x2: "endswith ''[pause:x]'' '']''"
    and x3: "float_of_str exact_floats (drop 7 (butlast ''[pause:x]'')) = None"
    by code_simp+
  have p1: "startswith ''[pause:1]'' ''[pause:''" and p2: "endswith ''[pause:1]'' '']''"
    and p3: "float_of_str exact_floats (drop 7 (butlast ''[pause:1]'')) = Some 1"
    by code_simp+
  have h: "attribute_stack ?st \<noteq> []" "attribute_stack ?sa \<noteq> []"
    by (simp_all add: initial_state_def)
  have f0: "flush_text_buffer exact_floats default_processor ?st = Inr ?st"
    by (simp add: flush_text_buffer_def initial_state_def)
  have fa: "flush_text_buffer exact_floats default_processor ?sa = Inr ?s1"
    by code_simp
  have A: "process_token exact_floats default_processor ?sa ''[pause:1]''
     = Inr \<lparr>segments = [(default_segment ''a'')\<lparr>pause_after := 1\<rparr>],
             attribute_stack = [get_default_attrs], current_text_buffer = [],
             text_segment_created = True\<rparr>"
    using pause_tag_step [OF p1 p2 h(2), of exact_floats default_processor]
    unfolding fa p3 by (auto simp: default_segment_def)
  have B: "process_token exact_floats default_processor ?st ''[pause:x]'' = Inr ?st"
    using pause_tag_step [OF x1 x2 h(1), of exact_floats default_processor]
    unfolding f0 x3 by auto
  have C: "process_tokens exact_floats default_processor initial_state
       [''a'', ''[pause:1]'', ''[pause:2]'']
     = Inr \<lparr>segments = [(default_segment ''a'')\<lparr>pause_after := 3\<rparr>],
             attribute_stack = [get_default_attrs], current_text_buffer = [],
             text_segment_created = True\<rparr>"
    by code_simp
  from A B C show ?thesis by blast
qed

text \<open>
  C10.  Let \<open>ds\<close> be a duration text that the pause alternative \<open>[0-9.]+\<close> of the
  token pattern rejects (some character of it is neither a digit nor a dot; it has no
  \<open>]\<close>), and that \<open>float()\<close> reads as \<open>d\<close>, a negative number.  Then the pause
  alternative does not match \<open>[pause:ds]\<close>, the tokenizer still yields it as one token
  (through the general tag alternative), and the parser sends it to the pause handler:
  after the flush, \<open>d\<close> is added to the last segment's \<open>pause_after\<close>, or to the
  \<open>pause_before\<close> of the scope on top of the stack when there is no segment.
\<close>

theorem negative_pause_is_added:
  assumes "ds \<noteq> []" and "CHR '']'' \<notin> set ds" and "\<not> (\<forall>c \<in> set ds. pause_digit c)"
    and "float_of_str F ds = Some d" and "d < 0"
    and "attribute_stack st \<noteq> []"
  shows "match_pause (''[pause:'' @ ds @ '']'') = None
       \<and> findall (''[pause:'' @ ds @ '']'') = [''[pause:'' @ ds @ '']'']
       \<and> (\<exists>st1 cur rest.
             flush_text_buffer F self st = Inr st1 \<and> attribute_stack st1 = cur # rest
           \<and> process_token F self st (''[pause:'' @ ds @ '']'') =
               Inr (if segments st1 \<noteq> []
                    then st1\<lparr>segments := butlast (segments st1)
                            @ [(last (segments st1))
                                 \<lparr>pause_after := pause_after (last (segments st1)) + d\<rparr>]\<rparr>
                    else st1\<lparr>attribute_stack :=
                            cur\<lparr>attr_pause_before := attr_pause_before cur + d\<rparr> # rest\<rparr>))"
proof -
  let ?tok = "''[pause:'' @ ds @ '']''"
  have mp: "match_pause ?tok = None"
    using assms(3,2) by (rule match_pause_fails)
  have "findall (CHR ''['' # (''pause:'' @ ds) @ '']'') = [CHR ''['' # (''pause:'' @ ds) @ '']'']"
    using assms(2) mp by (intro findall_single_tag) auto
  then have fa: "findall ?tok = [?tok]" by simp
  from assms(6) obtain c r where "attribute_stack st = c # r"
    by (cases "attribute_stack st") auto
  from flush_stack [OF this, of F self] obtain st1 cur where
    f: "flush_text_buffer F self st = Inr st1" and s: "attribute_stack st1 = cur # r"
    by blast
  have sw: "startswith ?tok ''[pause:''"
    by (simp add: startswith_def)
  have "suffix '']'' (''[pause:'' @ ds @ '']'')"
    unfolding suffix_def by (intro exI [of _ "''[pause:'' @ ds"]) simp
  then have ew: "endswith ?tok '']''"
    by (simp add: endswith_def)
  have dr: "drop 7 (butlast ?tok) = ds"
    by (simp add: butlast_append)
  have "process_token F self st ?tok =
               Inr (if segments st1 \<noteq> []
                    then st1\<lparr>segments := butlast (segments st1)
                            @ [(last (segments st1))
                                 \<lparr>pause_after := pause_after (last (segments st1)) + d\<rparr>]\<rparr>
                    else st1\<lparr>attribute_stack :=
                            cur\<lparr>attr_pause_before := attr_pause_before cur + d\<rparr> # r\<rparr>)"
    unfolding process_pause_token [OF sw ew f s] dr assms(4) by simp
  with mp fa f s show ?thesis by blast
qed

text \<open>
  \<open>x[pause:-1]\<close>: the segment \<open>x\<close> gets \<open>pause_after = 0 + (-1)\<close>, below the 0 it had.
\<close>

theorem negative_pause_is_added_witness:
  "findall ''x[pause:-1]'' = [''x'', ''[pause:-1]'']
   \<and> process_token exact_floats default_processor
       (initial_state\<lparr>current_text_buffer := [''x'']\<rparr>) ''[pause:-1]''
     = Inr \<lparr>segments = [(default_segment ''x'')\<lparr>pause_after := - 1\<rparr>],
             attribute_stack = [get_default_attrs], current_text_buffer = [],
             text_segment_created = True\<rparr>
   \<and> parse_markup exact_floats default_processor ''x[pause:-1]''
     = Inr [(default_segment ''x'')\<lparr>pause_after := - 1\<rparr>]
   \<and> pause_after ((default_segment ''x'')\<lparr>pause_after := - 1 :: rat\<rparr>)
       < pause_after (default_segment ''x'' :: rat SpeechSegment)"
proof -
  let ?sx = "(initial_state :: rat state)\<lparr>current_text_buffer := [''x'']\<rparr>"
  let ?s1 = "\<lparr>segments = [default_segment ''x''], attribute_stack = [get_default_attrs],
      current_text_buffer = [], text_segment_created = True\<rparr> :: rat state"
  have h1: "''-1'' \<noteq> []" and h2: "CHR '']'' \<notin> set ''-1''"
    and h3: "\<not> (\<forall>c \<in> set ''-1''. pause_digit c)"
    and h4: "float_of_str exact_floats ''-1'' = Some (- 1)"
    by code_simp+
  have h5: "(- 1 :: rat) < 0" by simp
  have h6: "attribute_stack ?sx \<noteq> []" by (simp add: initial_state_def)
  have fl: "flush_text_buffer exact_floats default_processor ?sx = Inr ?s1"
    by code_simp
  have A: "process_token exact_floats default_processor ?sx ''[pause:-1]''
     = Inr \<lparr>segments = [(default_segment ''x'')\<lparr>pause_after := - 1\<rparr>],
             attribute_stack = [get_default_attrs], current_text_buffer = [],
             text_segment_created = True\<rparr>"
    using negative_pause_is_added [OF h1 h2 h3 h4 h5 h6, of default_processor]
    unfolding fl by (auto simp: default_segment_def)
  have B: "findall ''x[pause:-1]'' = [''x'', ''[pause:-1]'']" by code_simp
  have C: "parse_markup exact_floats default_processor ''x[pause:-1]''
     = Inr [(default_segment ''x'')\<lparr>pause_after := - 1\<rparr>]" by code_simp
  have D: "pause_after ((default_segment ''x'')\<lparr>pause_after := - 1 :: rat\<rparr>)
       < pause_after (default_segment ''x'' :: rat SpeechSegment)"
    by (simp add: default_segment_def)
  from A B C D show ?thesis by blast
qed

subsection \<open>Spelled flush\<close>

lemma phonetic_key_code:
  assumes "map_of PHONETIC_SPELLING_MAP (upper_char c) \<noteq> None"
  shows "(48 \<le> (of_char c :: nat) \<and> (of_char c :: nat) \<le> 57)
       \<or> (65 \<le> (of_char c :: nat) \<and> (of_char c :: nat) \<le> 90)
       \<or> (97 \<le> (of_char c :: nat) \<and> (of_char c :: nat) \<le> 122)"
proof (cases "97 \<le> (of_char c :: nat) \<and> (of_char c :: nat) \<le> 122")
  case True
  then show ?thesis by simp
next
  case False
  then have "upper_char c = c" by (auto simp: upper_char_def Let_def)
  with assms have "c \<in> fst ` set PHONETIC_SPELLING_MAP"
    by (simp add: map_of_eq_None_iff)
  then show ?thesis
    unfolding PHONETIC_SPELLING_MAP_def by auto
qed

lemma phonetic_key_plain:
  assumes "map_of PHONETIC_SPELLING_MAP (upper_char c) \<noteq> None"
  shows "\<not> isspace c" and "c \<notin> set punctuation"
  using phonetic_key_code [OF assms] punctuation_code [of c]
  by (auto simp: isspace_def)

lemma length_spelled_segments:
  "length (spelled_segments self a ws) = 2 * length ws - 1"
  by (induction self a ws rule: spelled_segments.induct) auto

lemma spelled_segments_even:
  "i < length ws \<Longrightarrow> spelled_segments self a ws ! (2 * i) = new_segment (ws ! i) 0 0 a"
proof (induction self a ws arbitrary: i rule: spelled_segments.induct)
  case (3 self a w w' ws)
  then show ?case by (cases i) auto
qed auto

lemma spelled_segments_odd:
  "Suc i < length ws \<Longrightarrow>
     spelled_segments self a ws ! (2 * i + 1) = new_segment [] (spell_pause_duration self) 0 a"
proof (induction self a ws arbitrary: i rule: spelled_segments.induct)
  case (3 self a w w' ws)
  then show ?case by (cases i) auto
qed auto

lemma spelled_segments_nonempty:
  "ws \<noteq> [] \<Longrightarrow> spelled_segments self a ws \<noteq> []"
  by (induction self a ws rule: spelled_segments.induct) auto

text \<open>
  C5.  When the buffer holds one run \<open>w\<close> of \<open>k \<ge> 1\<close> characters, each with its
  upper-case form in the phonetic table, and the scope on top of the stack has its
  spell flag set, the flush appends exactly \<open>2k - 1\<close> segments: at the even position
  \<open>2i\<close> the entry of the table for the \<open>i\<close>-th character, with \<open>pause_before = 0\<close> and
  \<open>pause_after = 0\<close>; at the odd position \<open>2i + 1\<close>, for \<open>i + 1 < k\<close>, a segment with
  empty text, \<open>pause_before\<close> the spell pause duration and \<open>pause_after = 0\<close>.  The last
  position \<open>2k - 2\<close> is even, so no pause segment follows the last character.  This
  holds for every spell pause duration, the positive ones included.
\<close>

theorem spelled_flush:
  assumes "current_text_buffer st = [w]" and "w \<noteq> []"
    and "\<forall>c \<in> set w. map_of PHONETIC_SPELLING_MAP (upper_char c) \<noteq> None"
    and "attribute_stack st = cur # rest" and "truthy F (attr_spell cur)"
  shows "\<exists>S. flush_text_buffer F self st =
               Inr (st\<lparr>text_segment_created := True, segments := segments st @ S,
                       current_text_buffer := [],
                       attribute_stack := cur\<lparr>attr_pause_before := 0\<rparr> # rest\<rparr>)
           \<and> length S = 2 * length w - 1
           \<and> (\<forall>i < length w. \<exists>p.
                  map_of PHONETIC_SPELLING_MAP (upper_char (w ! i)) = Some p
                  \<and> S ! (2 * i) = new_segment p 0 0 cur)
           \<and> (\<forall>i. i + 1 < length w \<longrightarrow>
                  S ! (2 * i + 1) = new_segment [] (spell_pause_duration self) 0 cur)"
proof -
  let ?S = "spelled_segments self cur (map spell_char w)"
  have plain: "\<forall>c \<in> set w. \<not> isspace c" "\<forall>c \<in> set w. c \<notin> set punctuation"
    using assms(3) phonetic_key_plain by blast+
  have tc: "strip w = w"
    using plain(1) by (rule strip_no_space)
  from assms(2) plain(2) have np: "\<not> (\<forall>c \<in> set w. c \<in> set punctuation)"
    by (cases w) auto
  have fl: "flush_text_buffer F self st =
               Inr (st\<lparr>text_segment_created := True, segments := segments st @ ?S,
                       current_text_buffer := [],
                       attribute_stack := cur\<lparr>attr_pause_before := 0\<rparr> # rest\<rparr>)"
    using assms(1,2,4,5) np by (auto simp: flush_text_buffer_def tc Let_def)
  have len: "length ?S = 2 * length w - 1"
    by (simp add: length_spelled_segments)
  have even: "\<exists>p. map_of PHONETIC_SPELLING_MAP (upper_char (w ! i)) = Some p
                  \<and> ?S ! (2 * i) = new_segment p 0 0 cur" if "i < length w" for i
  proof -
    from that assms(3) obtain p where p: "map_of PHONETIC_SPELLING_MAP (upper_char (w ! i)) = Some p"
      by (metis nth_mem option.exhaust)
    then have "spell_char (w ! i) = p" by (simp add: spell_char_def)
    with that have "?S ! (2 * i) = new_segment p 0 0 cur"
      by (simp add: spelled_segments_even)
    with p show ?thesis by blast
  qed
  have odd: "?S ! (2 * i + 1) = new_segment [] (spell_pause_duration self) 0 cur"
    if "i + 1 < length w" for i
    using that spelled_segments_odd [of i "map spell_char w" self cur] by simp
  from fl len even odd show ?thesis by blast
qed

text \<open>The run \<open>Ab1\<close> with spell pause duration \<open>1/2\<close>: five segments.\<close>

theorem spelled_flush_witness:
  "flush_text_buffer exact_floats
     \<lparr>emotion_presets = [], modifier_presets = [], spell_pause_duration = 1 / 2\<rparr>
     \<lparr>segments = [], attribute_stack = [get_default_attrs\<lparr>attr_spell := PyBool True\<rparr>],
      current_text_buffer = [''Ab1''], text_segment_created = False\<rparr>
   = Inr \<lparr>segments =
            [default_segment ''AAY'', (default_segment [])\<lparr>pause_before := 1 / 2\<rparr>,
             default_segment ''Bee'', (default_segment [])\<lparr>pause_before := 1 / 2\<rparr>,
             default_segment ''one''],
          attribute_stack = [get_default_attrs\<lparr>attr_spell := PyBool True\<rparr>],
          current_text_buffer = [], text_segment_created = True\<rparr>"
proof -
  let ?self = "\<lparr>emotion_presets = [], modifier_presets = [], spell_pause_duration = 1 / 2 :: rat\<rparr>"
  let ?cur = "get_default_attrs\<lparr>attr_spell := PyBool True\<rparr> :: rat attrs"
  let ?st = "\<lparr>segments = [], attribute_stack = [?cur],
      current_text_buffer = [''Ab1''], text_segment_created = False\<rparr>"
  have h1: "current_text_buffer ?st = [''Ab1'']" and h2: "''Ab1'' \<noteq> []"
    and h4: "attribute_stack ?st = ?cur # []"
    by simp_all
  have h3: "\<forall>c \<in> set ''Ab1''. map_of PHONETIC_SPELLING_MAP (upper_char c) \<noteq> None"
    by code_simp
  have h5: "truthy exact_floats (attr_spell ?cur)"
    by (simp add: truthy_def)
  from spelled_flush [OF h1 h2 h3 h4 h5, of ?self]
  obtain S where S: "flush_text_buffer exact_floats ?self ?st =
               Inr (?st\<lparr>text_segment_created := True, segments := segments ?st @ S,
                       current_text_buffer := [],
                       attribute_stack := ?cur\<lparr>attr_pause_before := 0\<rparr> # []\<rparr>)"
    and len: "length S = 2 * length ''Ab1'' - 1"
    and even: "\<forall>i < length ''Ab1''. \<exists>p.
                  map_of PHONETIC_SPELLING_MAP (upper_char (''Ab1'' ! i)) = Some p
                  \<and> S ! (2 * i) = new_segment p 0 0 ?cur"
    and odd: "\<forall>i. i + 1 < length ''Ab1'' \<longrightarrow>
                  S ! (2 * i + 1) = new_segment [] (spell_pause_duration ?self) 0 ?cur"
    by blast
  have m: "map_of PHONETIC_SPELLING_MAP (upper_char (''Ab1'' ! 0)) = Some ''AAY''"
    "map_of PHONETIC_SPELLING_MAP (upper_char (''Ab1'' ! 1)) = Some ''Bee''"
    "map_of PHONETIC_SPELLING_MAP (upper_char (''Ab1'' ! 2)) = Some ''one''"
    by code_simp+
  from even [rule_format, of 0] even [rule_format, of 1] even [rule_format, of 2] m
  have e: "S ! 0 = new_segment ''AAY'' 0 0 ?cur" "S ! 2 = new_segment ''Bee'' 0 0 ?cur"
    "S ! 4 = new_segment ''one'' 0 0 ?cur"
    by auto
  from odd [rule_format, of 0] odd [rule_format, of 1]
  have o: "S ! 1 = new_segment [] (1 / 2) 0 ?cur" "S ! 3 = new_segment [] (1 / 2) 0 ?cur"
    by auto
  from len have l: "length S = 5" by simp
  have "S = [S ! 0, S ! 1, S ! 2, S ! 3, S ! 4]"
    using l by (intro nth_equalityI) (auto simp: nth_Cons' less_Suc_eq numeral_eq_Suc)
  with e o have "S = [new_segment ''AAY'' 0 0 ?cur, new_segment [] (1 / 2) 0 ?cur,
      new_segment ''Bee'' 0 0 ?cur, new_segment [] (1 / 2) 0 ?cur, new_segment ''one'' 0 0 ?cur]"
    by simp
  with S show ?thesis
    by (simp add: new_segment_def default_segment_def get_default_attrs_def)
qed

subsection \<open>Consumption of \<open>pause_before\<close>\<close>

text \<open>
  C2.  A pause tag before any segment puts its duration on the \<open>pause_before\<close> of the
  scope on top of the stack, and a plain flush from that scope hands it to the segment
  it creates and resets it.  A spelled flush does not hand it over: on
  \<open>[spell][pause:1]A\<close> the scope pushed by \<open>[spell]\<close> holds \<open>pause_before = 1\<close> when \<open>A\<close>
  is flushed, the segment \<open>AAY\<close> is created with \<open>pause_before = 0\<close>, and the flush then
  resets the scope's \<open>pause_before\<close>, so the pause is in no segment of the output.  With
  a tag that does not set the spell flag, the same text keeps it.
\<close>

theorem spelled_flush_drops_pause_before:
  "process_tokens exact_floats default_processor initial_state [''[spell]'', ''[pause:1]'', ''A'']
     = Inr \<lparr>segments = [],
             attribute_stack =
               [get_default_attrs\<lparr>attr_pause_before := 1, attr_spell := PyBool True\<rparr>,
                get_default_attrs],
             current_text_buffer = [''A''], text_segment_created = False\<rparr>
   \<and> parse_markup exact_floats default_processor ''[spell][pause:1]A''
     = Inr [default_segment ''AAY'']
   \<and> parse_markup exact_floats default_processor ''[plain][pause:1]A''
     = Inr [(default_segment ''A'')\<lparr>pause_before := 1\<rparr>]"
  by code_simp

subsection \<open>Unmatched close tags\<close>

text \<open>
  C3, as the claim states it, fails: an unmatched \<open>[/]\<close> still flushes the text buffer.
  \<open>a[/]b\<close> gives the two segments \<open>a\<close> and \<open>b\<close>; without the token, \<open>ab\<close> gives one.
\<close>

theorem unmatched_close_counterexample:
  "parse_markup exact_floats default_processor ''a[/]b''
     = Inr [default_segment ''a'', default_segment ''b'']
   \<and> parse_markup exact_floats default_processor ''ab'' = Inr [default_segment ''ab'']"
  by code_simp

text \<open>
  C3, amended.  When \<open>[/]\<close> is met while the stack holds the root scope only, no scope
  is popped: the token does what a flush of the text buffer does and nothing else, and
  the stack still holds one scope.  When moreover the text buffer is empty at that
  point, the state is unchanged, and the parse of the token sequence equals the parse of
  the sequence without that token.
\<close>

theorem unmatched_close_is_flush:
  assumes "process_tokens F self initial_state pre = Inr st"
    and "length (attribute_stack st) = 1"
  shows "process_token F self st ''[/]'' = flush_text_buffer F self st
       \<and> (\<exists>st1. flush_text_buffer F self st = Inr st1 \<and> length (attribute_stack st1) = 1)
       \<and> (current_text_buffer st = [] \<longrightarrow>
            process_token F self st ''[/]'' = Inr st
            \<and> parse_tokens F self (pre @ ''[/]'' # post) = parse_tokens F self (pre @ post))"
proof -
  from assms(2) obtain root where r: "attribute_stack st = [root]"
    by (cases "attribute_stack st") auto
  from flush_stack [OF r, of F self] obtain st1 where
    f: "flush_text_buffer F self st = Inr st1" by blast
  from flush_stack_length [OF f] assms(2) have l: "length (attribute_stack st1) = 1" by simp
  have tok: "startswith ''[/]'' ''[''" "endswith ''[/]'' '']''"
    by (simp_all add: startswith_def endswith_def suffix_def)
  have p: "process_token F self st ''[/]'' = flush_text_buffer F self st"
    using tok f l by (simp add: process_token_def)
  have "parse_tokens F self (pre @ ''[/]'' # post) = parse_tokens F self (pre @ post)"
    if "current_text_buffer st = []"
    using p flush_empty_buffer [OF that, of F self] assms(1)
    by (simp add: parse_tokens_def process_tokens_append)
  with p f l flush_empty_buffer [of st F self] show ?thesis by auto
qed

text \<open>
  After \<open>a[pause:1]\<close> the stack is at the root and the buffer is empty: a close tag
  there changes nothing.
\<close>

theorem unmatched_close_is_flush_witness:
  "parse_tokens exact_floats default_processor [''a'', ''[pause:1]'', ''[/]'', ''b'']
     = parse_tokens exact_floats default_processor [''a'', ''[pause:1]'', ''b'']
   \<and> parse_tokens exact_floats default_processor [''a'', ''[pause:1]'', ''b'']
     = Inr [(default_segment ''a'')\<lparr>pause_after := 1\<rparr>, default_segment ''b'']"
proof -
  let ?st = "\<lparr>segments = [(default_segment ''a'')\<lparr>pause_after := 1\<rparr>],
      attribute_stack = [get_default_attrs], current_text_buffer = [],
      text_segment_created = True\<rparr> :: rat state"
  have h1: "process_tokens exact_floats default_processor initial_state [''a'', ''[pause:1]'']
      = Inr ?st"
    by code_simp
  have h2: "length (attribute_stack ?st) = 1" and h3: "current_text_buffer ?st = []"
    by simp_all
  have A: "parse_tokens exact_floats default_processor ([''a'', ''[pause:1]''] @ ''[/]'' # [''b''])
     = parse_tokens exact_floats default_processor ([''a'', ''[pause:1]''] @ [''b''])"
    using unmatched_close_is_flush [OF h1 h2, of "[''b'']"] h3 by blast
  have B: "parse_tokens exact_floats default_processor [''a'', ''[pause:1]'', ''b'']
     = Inr [(default_segment ''a'')\<lparr>pause_after := 1\<rparr>, default_segment ''b'']"
    by code_simp
  from A B show ?thesis by simp
qed

subsection \<open>Totality\<close>

lemma flush_ok:
  assumes "state_ok st"
  shows "\<exists>st1. flush_text_buffer F self st = Inr st1 \<and> state_ok st1"
proof -
  from assms obtain cur rest where "attribute_stack st = cur # rest"
    by (cases "attribute_stack st") (auto simp: state_ok_def)
  with assms show ?thesis
    by (auto simp: flush_text_buffer_def state_ok_def Let_def spelled_segments_nonempty)
qed

lemma process_token_ok:
  assumes "presets_wf self" and "state_ok st"
  shows "\<exists>st'. process_token F self st token = Inr st' \<and> state_ok st'"
proof -
  from assms(2) obtain cur rest where s: "attribute_stack st = cur # rest"
    by (cases "attribute_stack st") (auto simp: state_ok_def)
  from flush_ok [OF assms(2), of F self] obtain st1 where
    f: "flush_text_buffer F self st = Inr st1" "state_ok st1" by blast
  then obtain cur1 rest1 where s1: "attribute_stack st1 = cur1 # rest1"
    by (cases "attribute_stack st1") (auto simp: state_ok_def)
  from apply_attrs_ok [OF assms(1)] obtain temp new where
    a: "apply_attributes F self cur (drop 1 (butlast token)) = Inr (temp, new)"
    unfolding apply_attributes_def by (metis surj_pair)
  show ?thesis
    using s f s1 a assms(2)
    by (auto simp: process_token_def state_ok_def split: option.splits list.splits)
qed

lemma process_tokens_ok:
  assumes "presets_wf self" and "state_ok st"
  shows "\<exists>st'. process_tokens F self st tokens = Inr st' \<and> state_ok st'"
  using assms(2)
proof (induction tokens arbitrary: st)
  case (Cons t ts)
  from process_token_ok [OF assms(1) Cons.prems, of F t] obtain st' where
    "process_token F self st t = Inr st'" "state_ok st'" by blast
  with Cons.IH [of st'] show ?case by simp
qed simp

lemma finish_ok:
  assumes "state_ok st"
  shows "\<exists>segs. finish F self st = Inr segs \<and> segs \<noteq> []"
proof -
  from flush_ok [OF assms, of F self] obtain st1 where
    f: "flush_text_buffer F self st = Inr st1" "state_ok st1" by blast
  then obtain cur1 rest1 where s1: "attribute_stack st1 = cur1 # rest1"
    by (cases "attribute_stack st1") (auto simp: state_ok_def)
  show ?thesis
    using f s1 by (auto simp: finish_def state_ok_def)
qed

text \<open>
  C6.  \<open>parse_markup\<close> is total: for every input string it returns a sequence of
  segments, without an exception, and the sequence is not empty.  The preset tables are
  those of the data model, whose presets have attribute names as keys; the functions of
  the model are total, so the run ends.
\<close>

theorem parse_markup_total:
  assumes "presets_wf self"
  shows "\<exists>segs. parse_markup F self markup_text = Inr segs \<and> segs \<noteq> []"
proof -
  have "state_ok (initial_state :: 'a state)"
    by (simp add: state_ok_def initial_state_def)
  from process_tokens_ok [OF assms this, of F "findall markup_text"] obtain st where
    "process_tokens F self initial_state (findall markup_text) = Inr st" "state_ok st"
    by blast
  with finish_ok [of st F self] show ?thesis
    by (simp add: parse_markup_def parse_tokens_def)
qed

text \<open>A preset table in the data model, and a markup text with every kind of defect.\<close>

theorem parse_markup_total_witness:
  "(\<exists>segs. parse_markup exact_floats
       \<lparr>emotion_presets = [(''happy'', [(''rate'', 2), (''pitch'', 3)])],
        modifier_presets = [(''slower'', [(''rate'', 1 / 2)])], spell_pause_duration = 0\<rparr>
       ''[happy,slower,foo:1,rate:x]a]b[[/]][/][pause:x][pause:][] [''
     = Inr segs \<and> segs \<noteq> [])
   \<and> parse_markup exact_floats
       \<lparr>emotion_presets = [(''happy'', [(''rate'', 2), (''pitch'', 3)])],
        modifier_presets = [(''slower'', [(''rate'', 1 / 2)])], spell_pause_duration = 0\<rparr>
       ''[happy,slower,foo:1,rate:x]a]b[[/]][/][pause:x][pause:][] [''
     = Inr [(default_segment ''a b'')\<lparr>rate := 1, pitch := 3\<rparr>]"
proof -
  let ?self = "\<lparr>emotion_presets = [(''happy'', [(''rate'', 2 :: rat), (''pitch'', 3)])],
        modifier_presets = [(''slower'', [(''rate'', 1 / 2)])], spell_pause_duration = 0\<rparr>"
  have wf: "presets_wf ?self"
    by (simp add: presets_wf_def attr_keys_def)
  have "parse_markup exact_floats ?self
       ''[happy,slower,foo:1,rate:x]a]b[[/]][/][pause:x][pause:][] [''
     = Inr [(default_segment ''a b'')\<lparr>rate := 1, pitch := 3\<rparr>]"
    by code_simp
  with parse_markup_total [OF wf, of exact_floats
      "''[happy,slower,foo:1,rate:x]a]b[[/]][/][pause:x][pause:][] [''"]
  show ?thesis by simp
qed

text \<open>
  Outside the data model, a preset whose key the attribute dict does not have raises
  KeyError, as \<open>attrs[key] *= value\<close> does.
\<close>

lemma preset_key_error:
  "parse_markup exact_floats
     \<lparr>emotion_presets = [(''fast'', [(''speed'', 2)])], modifier_presets = [],
      spell_pause_duration = 0\<rparr> ''[fast]go''
   = Inl (KeyError ''speed'')"
  by code_simp

subsection \<open>Text without tags\<close>

text \<open>
  C7, as the claim states it, fails on a bracket that belongs to no tag: the pattern
  matches no token at it, so it is dropped and the text on its two sides is buffered
  as two runs.  \<open>a]b\<close> has no tag in it (its tokens are the two text runs) and is its
  own whitespace-normalized form, and the segment's text is \<open>a b\<close>.
\<close>

theorem plain_text_counterexample:
  "findall ''a]b'' = [''a'', ''b'']
   \<and> strip (sub_ws ''a]b'') = ''a]b''
   \<and> parse_markup exact_floats default_processor ''a]b'' = Inr [default_segment ''a b'']"
  by code_simp

text \<open>
  C7, amended.  For every input string in which the tokenizer finds no tag (no \<open>[\<close>
  followed by one or more characters other than \<open>]\<close> and then \<open>]\<close>), \<open>parse_markup\<close>
  returns exactly one segment, with every field but the text at its default.  Its text
  is made of the text runs of the input, the stretches between the brackets that belong
  to no tag: each run whitespace-normalized, blank runs left out, joined by single
  spaces.  For an input with no bracket at all this is the whitespace-normalized input
  (every run of whitespace replaced by one space, then trimmed); it is the empty text,
  and the segment the default one, when every run is blank.  (The float \<open>0\<close> is not
  below itself.)
\<close>

theorem text_without_tags_single_segment:
  fixes F :: "'f::{zero,one,plus,times,ord} float_ops"
  assumes "\<forall>t \<in> set (findall s). \<not> is_tag t" and "\<not> (0::'f) < 0"
  shows "parse_markup F self s = Inr [default_segment (join '' '' (text_runs (findall s)))]
       \<and> (CHR ''['' \<notin> set s \<and> CHR '']'' \<notin> set s
            \<longrightarrow> join '' '' (text_runs (findall s)) = strip (sub_ws s))"
proof -
  let ?runs = "text_runs (findall s)"
  have run: "process_tokens F self initial_state (findall s)
      = Inr (initial_state\<lparr>current_text_buffer := ?runs\<rparr>)"
    using process_tokens_text_only [OF assms(1), of F self initial_state]
    by (simp add: initial_state_def)
  have "finish F self (initial_state\<lparr>current_text_buffer := ?runs\<rparr>)
      = Inr [default_segment (join '' '' ?runs)]"
  proof (cases "?runs = []")
    case True
    with assms(2) show ?thesis
      by (simp add: finish_def flush_text_buffer_def initial_state_def get_default_attrs_def)
  next
    case False
    from trimmed_join [OF False text_runs_trimmed] have t: "trimmed (join '' '' ?runs)" .
    then have ne: "join '' '' ?runs \<noteq> []" by (simp add: trimmed_def)
    from t have st: "strip (join '' '' ?runs) = join '' '' ?runs" by (rule trimmed_strip)
    show ?thesis
      using False ne
      by (simp add: finish_def flush_text_buffer_def st initial_state_def get_default_attrs_def
          truthy_def new_segment_def default_segment_def)
  qed
  with run have "parse_markup F self s = Inr [default_segment (join '' '' ?runs)]"
    by (simp add: parse_markup_def parse_tokens_def)
  with text_runs_plain [of s] show ?thesis by blast
qed

text \<open>
  A text with runs of whitespace, a blank text, and a text with brackets but no tag.
\<close>

theorem text_without_tags_single_segment_witness:
  "parse_markup exact_floats default_processor ''  Hello,   world !  ''
     = Inr [default_segment ''Hello, world !'']
   \<and> parse_markup exact_floats default_processor ''   '' = Inr [default_segment []]
   \<and> parse_markup exact_floats default_processor '' a]b ] c [] [''
     = Inr [default_segment ''a b c'']"
proof -
  have z: "\<not> (0::rat) < 0" by simp
  have a: "\<forall>t \<in> set (findall ''  Hello,   world !  ''). \<not> is_tag t"
    and b: "\<forall>t \<in> set (findall ''   ''). \<not> is_tag t"
    and c: "\<forall>t \<in> set (findall '' a]b ] c [] [''). \<not> is_tag t"
    by code_simp+
  have a': "CHR ''['' \<notin> set ''  Hello,   world !  '' \<and> CHR '']'' \<notin> set ''  Hello,   world !  ''"
    and b': "CHR ''['' \<notin> set ''   '' \<and> CHR '']'' \<notin> set ''   ''"
    by simp_all
  have n: "strip (sub_ws ''  Hello,   world !  '') = ''Hello, world !''"
    "strip (sub_ws ''   '') = []"
    "join '' '' (text_runs (findall '' a]b ] c [] ['')) = ''a b c''"
    by code_simp+
  from text_without_tags_single_segment [OF a z, of exact_floats default_processor] a' n(1)
  have A: "parse_markup exact_floats default_processor ''  Hello,   world !  ''
     = Inr [default_segment ''Hello, world !'']" by simp
  from text_without_tags_single_segment [OF b z, of exact_floats default_processor] b' n(2)
  have B: "parse_markup exact_floats default_processor ''   '' = Inr [default_segment []]"
    by simp
  from text_without_tags_single_segment [OF c z, of exact_floats default_processor] n(3)
  have C: "parse_markup exact_floats default_processor '' a]b ] c [] [''
     = Inr [default_segment ''a b c'']" by simp
  from A B C show ?thesis by blast
qed

subsection \<open>The spoken text\<close>










end
